theory Spec2Isabelle
  imports Complex_Main
begin

section \<open>CV analysis and candidate ranking (app.py)\<close>

text \<open>
  The script extracts text from uploaded CVs, sends each text through a sequence
  classifier, derives a skills, an experience and a total score from the softmax of
  the classifier's logits, lists the candidates and names the best one.

  Conventions of the embedding:
  \<^item> a Python \<open>str\<close> holding document text is a list of Unicode code points
    (\<open>nat list\<close>), so that length, slicing and \<open>str.strip\<close> count what Python counts;
    the media type of an upload, compared with two ASCII literals only, is a \<open>string\<close>;
  \<^item> the numbers of the script (numpy and Python floats) are modelled by \<open>real\<close>:
    arithmetic is exact, the rounding of binary floating point is not part of the model;
  \<^item> the libraries the script calls (pdfplumber, docx2txt, the tokenizer and the
    DistilBERT model) are parameters of the functions that call them;
  \<^item> an exception is a value \<open>Inl e\<close> of the result type \<open>error + 'a\<close>.
\<close>

subsection \<open>Values and errors\<close>

type_synonym pystr = "nat list"

datatype error = IndexError | ValueError | ParseError

text \<open>Python's \<open>xs[i]\<close> for a non-negative index: IndexError out of range.\<close>

definition py_get :: "'a list \<Rightarrow> nat \<Rightarrow> error + 'a" where
  "py_get xs i = (if i < length xs then Inr (xs ! i) else Inl IndexError)"

subsection \<open>Text extraction\<close>

text \<open>
  The code points for which \<open>str.isspace\<close> holds (CPython's table of Unicode
  whitespace); \<open>str.strip()\<close> with no argument removes exactly these from both ends.
\<close>

definition py_isspace :: "nat \<Rightarrow> bool" where
  "py_isspace c \<longleftrightarrow>
     (9 \<le> c \<and> c \<le> 13) \<or> (28 \<le> c \<and> c \<le> 32) \<or> c = 133 \<or> c = 160 \<or> c = 5760 \<or>
     (8192 \<le> c \<and> c \<le> 8202) \<or> c = 8232 \<or> c = 8233 \<or> c = 8239 \<or> c = 8287 \<or>
     c = 12288"

text \<open>
  \<open>str.strip()\<close>: advance past the whitespace at the left end, then move the right end
  back past the whitespace there, and return the slice between.
\<close>

definition lstrip :: "pystr \<Rightarrow> pystr" where
  "lstrip s = dropWhile py_isspace s"

definition rstrip :: "pystr \<Rightarrow> pystr" where
  "rstrip s = rev (dropWhile py_isspace (rev s))"

definition strip :: "pystr \<Rightarrow> pystr" where
  "strip s = rstrip (lstrip s)"

text \<open>
  \<open>extract_text_from_pdf\<close>. The parameter \<open>pdf_pages\<close> stands for pdfplumber:
  \<open>pdf_pages f\<close> is \<open>Inr\<close> of the results of \<open>page.extract_text()\<close> for the pages of
  \<open>f\<close>, in the order of \<open>pdf.pages\<close>, or \<open>Inl\<close> of an error when pdfplumber cannot open
  \<open>f\<close>. The loop appends each page's text and a line feed (code point 10) to \<open>text\<close>.
\<close>

fun pdf_loop :: "pystr \<Rightarrow> pystr list \<Rightarrow> pystr" where
  "pdf_loop text [] = text"
| "pdf_loop text (page # pages) = pdf_loop (text @ (page @ [10])) pages"

definition extract_text_from_pdf :: "('f \<Rightarrow> error + pystr list) \<Rightarrow> 'f \<Rightarrow> error + pystr" where
  "extract_text_from_pdf pdf_pages pdf_path =
     (case pdf_pages pdf_path of
        Inl e \<Rightarrow> Inl e
      | Inr pages \<Rightarrow> Inr (strip (pdf_loop [] pages)))"

text \<open>\<open>extract_text_from_word\<close>: the result of \<open>docx2txt.process\<close>, as it is.\<close>

definition extract_text_from_word :: "('f \<Rightarrow> error + pystr) \<Rightarrow> 'f \<Rightarrow> error + pystr" where
  "extract_text_from_word docx2txt_process docx_path = docx2txt_process docx_path"

subsection \<open>Scoring\<close>

text \<open>
  \<open>torch.softmax(logits, dim=1)\<close> on a two-dimensional tensor, a list of rows: every
  row is replaced by its normalised exponentials.
\<close>

definition softmax_row :: "real list \<Rightarrow> real list" where
  "softmax_row row = map (\<lambda>x. exp x / sum_list (map exp row)) row"

definition softmax_dim1 :: "real list list \<Rightarrow> real list list" where
  "softmax_dim1 logits = map softmax_row logits"

text \<open>
  \<open>analyze_cv_text\<close>. The parameter \<open>model_logits\<close> stands for the tokenizer followed
  by the model: the logits tensor for a text. The model is loaded with \<open>num_labels=5\<close>
  and is given one text, so the tensor has shape (1, 5); \<open>shape_1x5\<close> says so.
\<close>

definition analyze_cv_text :: "(pystr \<Rightarrow> real list list) \<Rightarrow> pystr \<Rightarrow> real list list" where
  "analyze_cv_text model_logits cv_text = softmax_dim1 (model_logits cv_text)"

definition shape_1x5 :: "real list list \<Rightarrow> bool" where
  "shape_1x5 t \<longleftrightarrow> map length t = [5]"

text \<open>
  A candidate is the tuple \<open>(cv, total_score, skills_score, experience_score)\<close>;
  the selectors are the tuple indices 0 to 3 the script uses.
\<close>

type_synonym candidate = "pystr \<times> real \<times> real \<times> real"

definition cand_cv :: "candidate \<Rightarrow> pystr" where
  "cand_cv c = fst c"

definition cand_total :: "candidate \<Rightarrow> real" where
  "cand_total c = fst (snd c)"

definition cand_skills :: "candidate \<Rightarrow> real" where
  "cand_skills c = fst (snd (snd c))"

definition cand_experience :: "candidate \<Rightarrow> real" where
  "cand_experience c = snd (snd (snd c))"

text \<open>The body of the loop of \<open>rank_candidates\<close> for one text.\<close>

definition score_cv :: "(pystr \<Rightarrow> real list list) \<Rightarrow> pystr \<Rightarrow> error + candidate" where
  "score_cv model_logits cv =
     (let cv_scores = analyze_cv_text model_logits cv in
      case py_get cv_scores 0 of
        Inl e \<Rightarrow> Inl e
      | Inr row \<Rightarrow>
          (case py_get row 0 of
             Inl e \<Rightarrow> Inl e
           | Inr p0 \<Rightarrow>
               (case py_get row 1 of
                  Inl e \<Rightarrow> Inl e
                | Inr p1 \<Rightarrow>
                    (let skills_score = p0 * 100;
                         experience_score = p1 * 100;
                         total_score = 0.5 * skills_score + 0.5 * experience_score
                     in Inr (cv, total_score, skills_score, experience_score)))))"

fun rank_loop ::
  "(pystr \<Rightarrow> real list list) \<Rightarrow> candidate list \<Rightarrow> pystr list \<Rightarrow> error + candidate list" where
  "rank_loop model_logits all_candidates [] = Inr all_candidates"
| "rank_loop model_logits all_candidates (cv # cv_data) =
     (case score_cv model_logits cv of
        Inl e \<Rightarrow> Inl e
      | Inr c \<Rightarrow> rank_loop model_logits (all_candidates @ [c]) cv_data)"

definition rank_candidates ::
  "(pystr \<Rightarrow> real list list) \<Rightarrow> pystr list \<Rightarrow> error + candidate list" where
  "rank_candidates model_logits cv_data = rank_loop model_logits [] cv_data"

subsection \<open>The best candidate\<close>

text \<open>
  Python's \<open>max(iterable, key=f)\<close>: ValueError on an empty iterable; otherwise the
  first item is the running maximum and a later item replaces it only when its key is
  strictly greater.
\<close>

fun max_loop :: "('a \<Rightarrow> real) \<Rightarrow> 'a \<Rightarrow> 'a list \<Rightarrow> 'a" where
  "max_loop key maxitem [] = maxitem"
| "max_loop key maxitem (item # items) =
     (if key item > key maxitem then max_loop key item items
      else max_loop key maxitem items)"

fun py_max :: "('a \<Rightarrow> real) \<Rightarrow> 'a list \<Rightarrow> error + 'a" where
  "py_max key [] = Inl ValueError"
| "py_max key (item # items) = Inr (max_loop key item items)"

definition best_candidate :: "candidate list \<Rightarrow> error + candidate" where
  "best_candidate candidates = py_max cand_total candidates"

text \<open>
  Specification: index \<open>i\<close> is the first position of the greatest key in \<open>xs\<close>.
\<close>

definition first_max_at :: "('a \<Rightarrow> real) \<Rightarrow> 'a list \<Rightarrow> nat \<Rightarrow> bool" where
  "first_max_at key xs i \<longleftrightarrow>
     i < length xs \<and> (\<forall>j < length xs. key (xs ! j) \<le> key (xs ! i)) \<and>
     (\<forall>j < i. key (xs ! j) < key (xs ! i))"

subsection \<open>The page\<close>

text \<open>
  An upload has a media type and a body. What the page shows is a list of elements;
  the scores are kept as numbers (the two-decimal formatting is not modelled), the
  snippet is \<open>cv[:30]\<close>, the chart holds the label numbers and the two series.
\<close>

record 'f uploaded_file =
  file_type :: string
  file_body :: 'f

datatype element =
    Subheader string
  | CandidateCard nat pystr real real real
  | BarChart "nat list" "real list" "real list"
  | BestCandidate pystr real real real
  | Warning string
  | Success string

text \<open>The loop over the uploads: a PDF and a Word document give a text, any other type nothing.\<close>

fun extract_loop ::
  "('f \<Rightarrow> error + pystr list) \<Rightarrow> ('f \<Rightarrow> error + pystr) \<Rightarrow> pystr list \<Rightarrow>
   'f uploaded_file list \<Rightarrow> error + pystr list" where
  "extract_loop pdf_pages docx2txt_process cvs [] = Inr cvs"
| "extract_loop pdf_pages docx2txt_process cvs (uploaded # rest) =
     (if file_type uploaded = ''application/pdf'' then
        (case extract_text_from_pdf pdf_pages (file_body uploaded) of
           Inl e \<Rightarrow> Inl e
         | Inr t \<Rightarrow> extract_loop pdf_pages docx2txt_process (cvs @ [t]) rest)
      else if file_type uploaded =
          ''application/vnd.openxmlformats-officedocument.wordprocessingml.document'' then
        (case extract_text_from_word docx2txt_process (file_body uploaded) of
           Inl e \<Rightarrow> Inl e
         | Inr t \<Rightarrow> extract_loop pdf_pages docx2txt_process (cvs @ [t]) rest)
      else extract_loop pdf_pages docx2txt_process cvs rest)"

text \<open>Specification: the two media types the loop handles.\<close>

definition accepted_type :: "string \<Rightarrow> bool" where
  "accepted_type t \<longleftrightarrow>
     t = ''application/pdf'' \<or>
     t = ''application/vnd.openxmlformats-officedocument.wordprocessingml.document''"

text \<open>The branch \<open>if candidates: ... else: st.warning(...)\<close>.\<close>

definition candidate_cards :: "candidate list \<Rightarrow> element list" where
  "candidate_cards candidates =
     map (\<lambda>(index, c). CandidateCard (index + 1) (take 30 (cand_cv c))
            (cand_total c) (cand_skills c) (cand_experience c))
         (enumerate 0 candidates)"

definition show_candidates :: "candidate list \<Rightarrow> error + element list" where
  "show_candidates candidates =
     (if candidates \<noteq> [] then
        (case best_candidate candidates of
           Inl e \<Rightarrow> Inl e
         | Inr best \<Rightarrow>
             Inr ([Subheader ''Candidates Analysis''] @ candidate_cards candidates @
                  [Subheader ''Comparison of Skills and Experience Scores'',
                   BarChart (map (\<lambda>i. i + 1) [0..<length candidates])
                     (map cand_skills candidates) (map cand_experience candidates),
                   BestCandidate (take 30 (cand_cv best)) (cand_total best)
                     (cand_skills best) (cand_experience best)]))
      else Inr [Warning ''No candidates found. Please check the CV content.''])"

text \<open>
  The block \<open>if uploaded_files:\<close> of the script, from the uploads to the elements
  shown. Its first statement stores the uploads in the session state; that store has no
  part in what is shown and is \<open>store_uploads\<close> below.
\<close>

definition process_uploads ::
  "('f \<Rightarrow> error + pystr list) \<Rightarrow> ('f \<Rightarrow> error + pystr) \<Rightarrow> (pystr \<Rightarrow> real list list) \<Rightarrow>
   'f uploaded_file list \<Rightarrow> error + element list" where
  "process_uploads pdf_pages docx2txt_process model_logits uploaded_files =
     (if uploaded_files \<noteq> [] then
        (case extract_loop pdf_pages docx2txt_process [] uploaded_files of
           Inl e \<Rightarrow> Inl e
         | Inr cvs \<Rightarrow>
             (case rank_candidates model_logits cvs of
                Inl e \<Rightarrow> Inl e
              | Inr candidates \<Rightarrow> show_candidates candidates))
      else Inr [])"

subsection \<open>Session state and the clear button\<close>

text \<open>
  \<open>st.session_state\<close> is a dictionary from keys to Python values: \<open>None\<close>, the list of
  uploads or a list of candidates. \<open>truthy\<close> is Python's truth value of what
  \<open>session_state.get(key)\<close> returns (\<open>None\<close> for a missing key).
\<close>

datatype 'f pyval = PyNone | UploadedFiles "'f uploaded_file list" | Candidates "candidate list"

type_synonym 'f session_state = "string \<rightharpoonup> 'f pyval"

definition state_get :: "'f session_state \<Rightarrow> string \<Rightarrow> 'f pyval" where
  "state_get st k = (case st k of None \<Rightarrow> PyNone | Some v \<Rightarrow> v)"

fun truthy :: "'f pyval \<Rightarrow> bool" where
  "truthy PyNone = False"
| "truthy (UploadedFiles fs) = (fs \<noteq> [])"
| "truthy (Candidates cs) = (cs \<noteq> [])"

text \<open>
  The start of the script: \<open>if "uploaded_files" not in st.session_state:
  st.session_state["uploaded_files"] = None\<close>.
\<close>

definition init_session :: "'f session_state \<Rightarrow> 'f session_state" where
  "init_session st =
     (if ''uploaded_files'' \<notin> dom st then st(''uploaded_files'' \<mapsto> PyNone) else st)"

definition store_uploads :: "'f session_state \<Rightarrow> 'f uploaded_file list \<Rightarrow> 'f session_state" where
  "store_uploads st uploaded_files =
     (if uploaded_files \<noteq> [] then st(''uploaded_files'' \<mapsto> UploadedFiles uploaded_files)
      else st)"

definition reset_state :: "'f session_state \<Rightarrow> 'f session_state" where
  "reset_state st =
     (let st1 = (if ''uploaded_files'' \<in> dom st then st(''uploaded_files'' := None) else st);
          st2 = (if ''candidates'' \<in> dom st1 then st1(''candidates'' := None) else st1);
          st3 = st2(''uploaded_files'' \<mapsto> PyNone)
      in st3(''candidates'' \<mapsto> Candidates []))"

text \<open>The handler of the button "Clear CVs": the new state and the message shown.\<close>

definition clear_cvs :: "'f session_state \<Rightarrow> 'f session_state \<times> element" where
  "clear_cvs st =
     (if truthy (state_get st ''uploaded_files'') \<or> truthy (state_get st ''candidates'')
      then (reset_state st, Success ''CVs cleared successfully!'')
      else (st, Warning ''No CVs uploaded to clear.''))"

subsection \<open>A run of the script\<close>

text \<open>
  Streamlit runs the script from its first line on every interaction. Between runs it
  keeps two things: \<open>st.session_state\<close>, and the files held by the uploader widget,
  which \<open>st.file_uploader\<close> returns in each run. The script creates the uploader
  without a key and never assigns to it, so only the user changes the files it holds.
  A run takes the application state and whether "Clear CVs" was pressed, and gives the
  state after the run and the elements shown.
\<close>

record 'f app =
  widget_files :: "'f uploaded_file list"
  session :: "'f session_state"

definition run_script ::
  "('f \<Rightarrow> error + pystr list) \<Rightarrow> ('f \<Rightarrow> error + pystr) \<Rightarrow> (pystr \<Rightarrow> real list list) \<Rightarrow>
   bool \<Rightarrow> 'f app \<Rightarrow> error + ('f app \<times> element list)" where
  "run_script pdf_pages docx2txt_process model_logits clear_clicked a =
     (let st1 = init_session (session a);
          uploaded_files = widget_files a;
          st2 = store_uploads st1 uploaded_files
      in case process_uploads pdf_pages docx2txt_process model_logits uploaded_files of
           Inl e \<Rightarrow> Inl e
         | Inr shown \<Rightarrow>
             (if clear_clicked then
                (let (st3, message) = clear_cvs st2
                 in Inr (a\<lparr>session := st3\<rparr>, shown @ [message]))
              else Inr (a\<lparr>session := st2\<rparr>, shown)))"

section \<open>Properties\<close>

subsection \<open>Scoring one text, and the loop of \<open>rank_candidates\<close>\<close>

lemma shape_1x5_row:
  assumes "shape_1x5 t"
  obtains row where "t = [row]" and "length row = 5"
  using assms by (cases t) (auto simp: shape_1x5_def)

lemma length_softmax_row: "length (softmax_row row) = length row"
  by (simp add: softmax_row_def)

lemma score_cv_shape:
  assumes "shape_1x5 (model_logits cv)"
  shows "\<exists>row. model_logits cv = [row] \<and> length row = 5 \<and>
           score_cv model_logits cv =
             Inr (cv, 0.5 * (softmax_row row ! 0 * 100) + 0.5 * (softmax_row row ! 1 * 100),
                  softmax_row row ! 0 * 100, softmax_row row ! 1 * 100)"
proof -
  from assms obtain row where row: "model_logits cv = [row]" "length row = 5"
    by (rule shape_1x5_row)
  have "score_cv model_logits cv =
          Inr (cv, 0.5 * (softmax_row row ! 0 * 100) + 0.5 * (softmax_row row ! 1 * 100),
               softmax_row row ! 0 * 100, softmax_row row ! 1 * 100)"
    using row
    by (simp add: score_cv_def analyze_cv_text_def softmax_dim1_def py_get_def
        length_softmax_row Let_def)
  with row show ?thesis by blast
qed

lemma score_cv_cases:
  assumes "score_cv model_logits cv = Inr c"
  shows "cand_cv c = cv \<and> cand_total c = 0.5 * cand_skills c + 0.5 * cand_experience c"
  using assms
  by (auto simp: score_cv_def Let_def cand_cv_def cand_total_def cand_skills_def
      cand_experience_def split: sum.splits)

text \<open>
  What the loop returns: the accumulator followed by one candidate per text, the
  candidate of a text being what \<open>score_cv\<close> gives for it.
\<close>

lemma rank_loop_sound:
  "rank_loop model_logits acc cvs = Inr res \<Longrightarrow>
   \<exists>cs. res = acc @ cs \<and> list_all2 (\<lambda>cv c. score_cv model_logits cv = Inr c) cvs cs"
proof (induction cvs arbitrary: acc)
  case Nil
  then show ?case by simp
next
  case (Cons cv cvs)
  then obtain c where c: "score_cv model_logits cv = Inr c"
    and rest: "rank_loop model_logits (acc @ [c]) cvs = Inr res"
    by (auto split: sum.splits)
  from Cons.IH [OF rest] obtain cs where
    "res = (acc @ [c]) @ cs" "list_all2 (\<lambda>cv c. score_cv model_logits cv = Inr c) cvs cs"
    by blast
  with c have "res = acc @ (c # cs) \<and>
      list_all2 (\<lambda>cv c. score_cv model_logits cv = Inr c) (cv # cvs) (c # cs)"
    by simp
  then show ?case by blast
qed

lemma rank_loop_total:
  "\<forall>cv \<in> set cvs. shape_1x5 (model_logits cv) \<Longrightarrow>
   \<exists>res. rank_loop model_logits acc cvs = Inr res"
proof (induction cvs arbitrary: acc)
  case Nil
  then show ?case by simp
next
  case (Cons cv cvs)
  then have "shape_1x5 (model_logits cv)" by simp
  then obtain c where "score_cv model_logits cv = Inr c"
    using score_cv_shape by blast
  with Cons show ?case by simp
qed

lemma rank_candidates_scored:
  assumes "\<forall>cv \<in> set cvs. shape_1x5 (model_logits cv)"
  shows "\<exists>res. rank_candidates model_logits cvs = Inr res \<and>
           list_all2 (\<lambda>cv c. score_cv model_logits cv = Inr c) cvs res"
proof -
  from rank_loop_total [OF assms] obtain res where
    res: "rank_loop model_logits [] cvs = Inr res" by blast
  from rank_loop_sound [OF res] have
    "list_all2 (\<lambda>cv c. score_cv model_logits cv = Inr c) cvs res" by simp
  with res show ?thesis by (auto simp: rank_candidates_def)
qed

subsection \<open>The result has one tuple per text, carrying the text\<close>

text \<open>
  Claim C10. For every list of texts (the classifier giving a tensor of shape (1, 5)
  for each), \<open>rank_candidates\<close> returns a list of the same length as its input, and
  component 0 of the i-th tuple is the i-th input text, unchanged.
\<close>

theorem rank_candidates_passes_text:
  assumes "\<forall>cv \<in> set cv_data. shape_1x5 (model_logits cv)"
  shows "\<exists>res. rank_candidates model_logits cv_data = Inr res \<and>
           length res = length cv_data \<and>
           (\<forall>i < length cv_data. cand_cv (res ! i) = cv_data ! i)"
proof -
  from rank_candidates_scored [OF assms] obtain res where
    res: "rank_candidates model_logits cv_data = Inr res"
    and all2: "list_all2 (\<lambda>cv c. score_cv model_logits cv = Inr c) cv_data res"
    by blast
  from all2 have len: "length res = length cv_data"
    by (simp add: list_all2_lengthD)
  have "cand_cv (res ! i) = cv_data ! i" if "i < length cv_data" for i
    using list_all2_nthD [OF all2 that] score_cv_cases by blast
  with res len show ?thesis by blast
qed

theorem rank_candidates_passes_text_witness:
  "shape_1x5 ((\<lambda>cv. [[0, 0, 0, 0, 0]]) [67, 86]) \<and>
   shape_1x5 ((\<lambda>cv. [[0, 0, 0, 0, 0]]) []) \<and>
   shape_1x5 ((\<lambda>cv. [[0, 0, 0, 0, 0]]) [32, 97]) \<and>
   (\<exists>res. rank_candidates (\<lambda>cv. [[0, 0, 0, 0, 0]]) [[67, 86], [], [32, 97]] = Inr res \<and>
      length res = length [[67, 86], [], [32, 97 :: nat]] \<and>
      (\<forall>i < length [[67, 86], [], [32, 97 :: nat]].
         cand_cv (res ! i) = [[67, 86], [], [32, 97]] ! i))"
  using rank_candidates_passes_text [of "[[67, 86], [], [32, 97]]" "\<lambda>cv. [[0, 0, 0, 0, 0]]"]
  by (simp add: shape_1x5_def)

subsection \<open>Softmax\<close>

lemma sum_list_exp_pos:
  assumes "row \<noteq> []"
  shows "0 < sum_list (map exp (row :: real list))"
proof (cases row)
  case Nil
  with assms show ?thesis by simp
next
  case (Cons x xs)
  have "0 \<le> sum_list (map exp xs)" by (rule sum_list_nonneg) auto
  moreover have "0 < exp x" by simp
  ultimately show ?thesis using Cons by (simp add: add_pos_nonneg)
qed

lemma exp_le_sum_list: "x \<in> set row \<Longrightarrow> exp x \<le> sum_list (map exp (row :: real list))"
  by (rule member_le_sum_list) auto

lemma softmax_row_bounds:
  assumes "p \<in> set (softmax_row row)"
  shows "0 \<le> p \<and> p \<le> 1"
proof -
  from assms obtain x where x: "x \<in> set row" and p: "p = exp x / sum_list (map exp row)"
    by (auto simp: softmax_row_def)
  from x have "row \<noteq> []" by auto
  then have pos: "0 < sum_list (map exp row)" by (rule sum_list_exp_pos)
  from x have "exp x \<le> sum_list (map exp row)" by (rule exp_le_sum_list)
  with pos p show ?thesis by simp
qed

lemma sum_list_softmax_row:
  assumes "row \<noteq> []"
  shows "sum_list (softmax_row row) = 1"
proof -
  have pos: "0 < sum_list (map exp row)" using assms by (rule sum_list_exp_pos)
  have "sum_list (softmax_row row) = sum_list (map exp row) * inverse (sum_list (map exp row))"
    by (simp add: softmax_row_def divide_inverse sum_list_mult_const comp_def)
  with pos show ?thesis by simp
qed

lemma first_two_le_sum:
  assumes "length (ps :: real list) = 5" and "\<forall>p \<in> set ps. 0 \<le> p"
  shows "ps ! 0 + ps ! 1 \<le> sum_list ps"
proof -
  from assms(1) obtain a b c d e where ps: "ps = [a, b, c, d, e]"
    by (auto simp: length_Suc_conv eval_nat_numeral)
  with assms(2) show ?thesis by simp
qed

lemma score_cv_range:
  assumes "shape_1x5 (model_logits cv)" and "score_cv model_logits cv = Inr c"
  shows "0 \<le> cand_skills c \<and> cand_skills c \<le> 100 \<and>
         0 \<le> cand_experience c \<and> cand_experience c \<le> 100 \<and>
         0 \<le> cand_total c \<and> cand_total c \<le> 100"
proof -
  from score_cv_shape [of model_logits cv] assms obtain row where
    len: "length row = 5" and
    c: "c = (cv, 0.5 * (softmax_row row ! 0 * 100) + 0.5 * (softmax_row row ! 1 * 100),
             softmax_row row ! 0 * 100, softmax_row row ! 1 * 100)"
    by auto
  let ?ps = "softmax_row row"
  have l5: "length ?ps = 5" using len by (simp add: length_softmax_row)
  have b: "\<forall>p \<in> set ?ps. 0 \<le> p \<and> p \<le> 1" using softmax_row_bounds by blast
  have m0: "?ps ! 0 \<in> set ?ps" and m1: "?ps ! 1 \<in> set ?ps" using l5 by (simp_all)
  from len have "row \<noteq> []" by auto
  then have s: "sum_list ?ps = 1" by (rule sum_list_softmax_row)
  have "?ps ! 0 + ?ps ! 1 \<le> sum_list ?ps" using l5 b by (intro first_two_le_sum) auto
  with s have le: "?ps ! 0 + ?ps ! 1 \<le> 1" by simp
  from b m0 have b0: "0 \<le> ?ps ! 0" "?ps ! 0 \<le> 1" by blast+
  from b m1 have b1: "0 \<le> ?ps ! 1" "?ps ! 1 \<le> 1" by blast+
  show ?thesis using b0 b1 le
    by (simp add: c cand_skills_def cand_experience_def cand_total_def)
qed


subsection \<open>Every tuple of the result comes from one of the texts\<close>

lemma rank_candidates_members:
  assumes "rank_candidates model_logits cvs = Inr res" and "c \<in> set res"
  shows "\<exists>cv \<in> set cvs. score_cv model_logits cv = Inr c"
proof -
  from assms(1) have "rank_loop model_logits [] cvs = Inr res"
    by (simp add: rank_candidates_def)
  from rank_loop_sound [OF this] have
    all2: "list_all2 (\<lambda>cv c. score_cv model_logits cv = Inr c) cvs res" by simp
  from assms(2) obtain i where i: "i < length res" "c = res ! i"
    by (auto simp: in_set_conv_nth)
  from all2 i have "score_cv model_logits (cvs ! i) = Inr c"
    by (simp add: list_all2_conv_all_nth)
  moreover from all2 i have "cvs ! i \<in> set cvs"
    by (simp add: list_all2_lengthD)
  ultimately show ?thesis by blast
qed

subsection \<open>The total score\<close>

text \<open>
  Claim C1. For every candidate in the result of \<open>rank_candidates\<close>, the total score
  equals \<open>0.5 * skills_score + 0.5 * experience_score\<close>, which is the average of the
  skills score and the experience score.
\<close>

theorem total_score_is_average:
  assumes "\<forall>cv \<in> set cv_data. shape_1x5 (model_logits cv)"
  shows "\<exists>res. rank_candidates model_logits cv_data = Inr res \<and>
           (\<forall>c \<in> set res.
              cand_total c = 0.5 * cand_skills c + 0.5 * cand_experience c \<and>
              cand_total c = (cand_skills c + cand_experience c) / 2)"
proof -
  from rank_candidates_scored [OF assms] obtain res where
    res: "rank_candidates model_logits cv_data = Inr res" by blast
  have "cand_total c = 0.5 * cand_skills c + 0.5 * cand_experience c \<and>
        cand_total c = (cand_skills c + cand_experience c) / 2" if "c \<in> set res" for c
  proof -
    from rank_candidates_members [OF res that] obtain cv where
      "score_cv model_logits cv = Inr c" by blast
    then have "cand_total c = 0.5 * cand_skills c + 0.5 * cand_experience c"
      using score_cv_cases by blast
    then show ?thesis by simp
  qed
  with res show ?thesis by blast
qed

theorem total_score_is_average_witness:
  "shape_1x5 ((\<lambda>cv. [[2, 1, 0, -1, 1 / 2]]) [67, 86]) \<and>
   shape_1x5 ((\<lambda>cv. [[2, 1, 0, -1, 1 / 2]]) [82]) \<and>
   (\<exists>res. rank_candidates (\<lambda>cv. [[2, 1, 0, -1, 1 / 2]]) [[67, 86], [82]] = Inr res \<and>
      (\<forall>c \<in> set res.
         cand_total c = 0.5 * cand_skills c + 0.5 * cand_experience c \<and>
         cand_total c = (cand_skills c + cand_experience c) / 2))"
  using total_score_is_average [of "[[67, 86], [82]]" "\<lambda>cv. [[2, 1, 0, -1, 1 / 2]]"]
  by (simp add: shape_1x5_def)

subsection \<open>Ranges of the probabilities and of the scores\<close>

text \<open>
  Claim C6. The score vector that \<open>analyze_cv_text\<close> returns for a text has five
  components, each between 0 and 1, whose sum is 1; and the skills, experience and total
  score of every candidate in the result of \<open>rank_candidates\<close> lie between 0 and 100.
  (Arithmetic here is exact: the sum is 1, with no tolerance.)
\<close>

theorem scores_in_range:
  assumes "\<forall>cv \<in> set cv_data. shape_1x5 (model_logits cv)"
  shows "(\<forall>cv \<in> set cv_data.
            \<exists>v. analyze_cv_text model_logits cv = [v] \<and> length v = 5 \<and>
                (\<forall>p \<in> set v. 0 \<le> p \<and> p \<le> 1) \<and> sum_list v = 1) \<and>
         (\<exists>res. rank_candidates model_logits cv_data = Inr res \<and>
            (\<forall>c \<in> set res.
               0 \<le> cand_skills c \<and> cand_skills c \<le> 100 \<and>
               0 \<le> cand_experience c \<and> cand_experience c \<le> 100 \<and>
               0 \<le> cand_total c \<and> cand_total c \<le> 100))"
proof
  show "\<forall>cv \<in> set cv_data.
          \<exists>v. analyze_cv_text model_logits cv = [v] \<and> length v = 5 \<and>
              (\<forall>p \<in> set v. 0 \<le> p \<and> p \<le> 1) \<and> sum_list v = 1"
  proof
    fix cv assume "cv \<in> set cv_data"
    with assms have "shape_1x5 (model_logits cv)" by blast
    then obtain row where row: "model_logits cv = [row]" "length row = 5"
      by (rule shape_1x5_row)
    then have "row \<noteq> []" by auto
    then have "sum_list (softmax_row row) = 1" by (rule sum_list_softmax_row)
    moreover have "analyze_cv_text model_logits cv = [softmax_row row]"
      using row by (simp add: analyze_cv_text_def softmax_dim1_def)
    moreover have "length (softmax_row row) = 5"
      using row by (simp add: length_softmax_row)
    moreover have "\<forall>p \<in> set (softmax_row row). 0 \<le> p \<and> p \<le> 1"
      using softmax_row_bounds by blast
    ultimately show "\<exists>v. analyze_cv_text model_logits cv = [v] \<and> length v = 5 \<and>
              (\<forall>p \<in> set v. 0 \<le> p \<and> p \<le> 1) \<and> sum_list v = 1"
      by blast
  qed
next
  from rank_candidates_scored [OF assms] obtain res where
    res: "rank_candidates model_logits cv_data = Inr res" by blast
  have "0 \<le> cand_skills c \<and> cand_skills c \<le> 100 \<and>
        0 \<le> cand_experience c \<and> cand_experience c \<le> 100 \<and>
        0 \<le> cand_total c \<and> cand_total c \<le> 100" if "c \<in> set res" for c
  proof -
    from rank_candidates_members [OF res that] obtain cv where
      cv: "cv \<in> set cv_data" "score_cv model_logits cv = Inr c" by blast
    with assms have "shape_1x5 (model_logits cv)" by blast
    from score_cv_range [OF this cv(2)] show ?thesis .
  qed
  with res show "\<exists>res. rank_candidates model_logits cv_data = Inr res \<and>
            (\<forall>c \<in> set res.
               0 \<le> cand_skills c \<and> cand_skills c \<le> 100 \<and>
               0 \<le> cand_experience c \<and> cand_experience c \<le> 100 \<and>
               0 \<le> cand_total c \<and> cand_total c \<le> 100)"
    by blast
qed

theorem scores_in_range_witness:
  "shape_1x5 ((\<lambda>cv. [[0, 3, -2, 1, 1]]) [67, 86]) \<and>
   shape_1x5 ((\<lambda>cv. [[0, 3, -2, 1, 1]]) [82]) \<and>
   (\<exists>v. analyze_cv_text (\<lambda>cv. [[0, 3, -2, 1, 1]]) [67, 86] = [v] \<and> length v = 5 \<and>
      (\<forall>p \<in> set v. 0 \<le> p \<and> p \<le> 1) \<and> sum_list v = 1) \<and>
   (\<exists>v. analyze_cv_text (\<lambda>cv. [[0, 3, -2, 1, 1]]) [82] = [v] \<and> length v = 5 \<and>
      (\<forall>p \<in> set v. 0 \<le> p \<and> p \<le> 1) \<and> sum_list v = 1) \<and>
   (\<exists>res. rank_candidates (\<lambda>cv. [[0, 3, -2, 1, 1]]) [[67, 86], [82]] = Inr res \<and>
      (\<forall>c \<in> set res.
         0 \<le> cand_skills c \<and> cand_skills c \<le> 100 \<and>
         0 \<le> cand_experience c \<and> cand_experience c \<le> 100 \<and>
         0 \<le> cand_total c \<and> cand_total c \<le> 100))"
  using scores_in_range [of "[[67, 86], [82]]" "\<lambda>cv. [[0, 3, -2, 1, 1]]"]
  by (simp add: shape_1x5_def)

subsection \<open>The order of the candidates\<close>

lemma nth_candidate_cards:
  assumes "i < length cs"
  shows "candidate_cards cs ! i =
    CandidateCard (i + 1) (take 30 (cand_cv (cs ! i))) (cand_total (cs ! i))
      (cand_skills (cs ! i)) (cand_experience (cs ! i))"
  using assms by (simp add: candidate_cards_def nth_enumerate_eq)

text \<open>
  Claim C8. The result of \<open>rank_candidates\<close> keeps the order of its input: the i-th
  tuple is the one scored from the i-th text, and the i-th card of the list shown carries
  the number \<open>i + 1\<close> and the first 30 code points of the i-th text.
\<close>

theorem rank_candidates_keeps_order:
  assumes "\<forall>cv \<in> set cv_data. shape_1x5 (model_logits cv)"
  shows "\<exists>res. rank_candidates model_logits cv_data = Inr res \<and>
           length res = length cv_data \<and>
           (\<forall>i < length cv_data.
              score_cv model_logits (cv_data ! i) = Inr (res ! i) \<and>
              candidate_cards res ! i =
                CandidateCard (i + 1) (take 30 (cv_data ! i)) (cand_total (res ! i))
                  (cand_skills (res ! i)) (cand_experience (res ! i)))"
proof -
  from rank_candidates_scored [OF assms] obtain res where
    res: "rank_candidates model_logits cv_data = Inr res"
    and all2: "list_all2 (\<lambda>cv c. score_cv model_logits cv = Inr c) cv_data res"
    by blast
  from all2 have len: "length res = length cv_data"
    by (simp add: list_all2_lengthD)
  have "score_cv model_logits (cv_data ! i) = Inr (res ! i) \<and>
        candidate_cards res ! i =
          CandidateCard (i + 1) (take 30 (cv_data ! i)) (cand_total (res ! i))
            (cand_skills (res ! i)) (cand_experience (res ! i))"
    if i: "i < length cv_data" for i
  proof -
    from list_all2_nthD [OF all2 i] have s: "score_cv model_logits (cv_data ! i) = Inr (res ! i)" .
    then have "cand_cv (res ! i) = cv_data ! i" using score_cv_cases by blast
    with s i len show ?thesis by (simp add: nth_candidate_cards)
  qed
  with res len show ?thesis by blast
qed

theorem rank_candidates_keeps_order_witness:
  "shape_1x5 ((\<lambda>cv. [[real (length cv), 0, 0, 0, 0]]) [65]) \<and>
   shape_1x5 ((\<lambda>cv. [[real (length cv), 0, 0, 0, 0]]) [66]) \<and>
   shape_1x5 ((\<lambda>cv. [[real (length cv), 0, 0, 0, 0]]) [67]) \<and>
   (\<exists>res. rank_candidates (\<lambda>cv. [[real (length cv), 0, 0, 0, 0]]) [[65], [66], [67]] = Inr res \<and>
      length res = length [[65], [66], [67 :: nat]] \<and>
      (\<forall>i < length [[65], [66], [67 :: nat]].
         score_cv (\<lambda>cv. [[real (length cv), 0, 0, 0, 0]]) ([[65], [66], [67]] ! i) = Inr (res ! i) \<and>
         candidate_cards res ! i =
           CandidateCard (i + 1) (take 30 ([[65], [66], [67]] ! i)) (cand_total (res ! i))
             (cand_skills (res ! i)) (cand_experience (res ! i))))"
  using rank_candidates_keeps_order [of "[[65], [66], [67]]" "\<lambda>cv. [[real (length cv), 0, 0, 0, 0]]"]
  by (simp add: shape_1x5_def)

subsection \<open>The best candidate is the first maximum\<close>

lemma first_max_at_unique:
  assumes "first_max_at key xs i" and "first_max_at key xs i'"
  shows "i = i'"
proof (rule ccontr)
  assume "i \<noteq> i'"
  then consider "i < i'" | "i' < i" by linarith
  then show False
  proof cases
    case 1
    with assms(2) have "key (xs ! i) < key (xs ! i')" by (simp add: first_max_at_def)
    moreover from assms have "key (xs ! i') \<le> key (xs ! i)" by (simp add: first_max_at_def)
    ultimately show False by simp
  next
    case 2
    with assms(1) have "key (xs ! i') < key (xs ! i)" by (simp add: first_max_at_def)
    moreover from assms have "key (xs ! i) \<le> key (xs ! i')" by (simp add: first_max_at_def)
    ultimately show False by simp
  qed
qed

lemma first_max_at_keys:
  assumes "map key xs = map key' ys" and "first_max_at key xs i"
  shows "first_max_at key' ys i"
proof -
  from assms(1) have len: "length xs = length ys" by (rule map_eq_imp_length_eq)
  have k: "key (xs ! j) = key' (ys ! j)" if "j < length xs" for j
  proof -
    have "map key xs ! j = map key' ys ! j" using assms(1) by simp
    with that len show ?thesis by simp
  qed
  from assms(2) show ?thesis
    unfolding first_max_at_def using len k by auto
qed

lemma max_loop_first_max:
  assumes "k < length pre" and "maxitem = pre ! k" and "first_max_at key pre k"
  shows "\<exists>i. first_max_at key (pre @ items) i \<and> max_loop key maxitem items = (pre @ items) ! i"
  using assms
proof (induction items arbitrary: pre k maxitem)
  case Nil
  then show ?case by auto
next
  case (Cons item items)
  show ?case
  proof (cases "key item > key maxitem")
    case True
    have "first_max_at key (pre @ [item]) (length pre)"
      unfolding first_max_at_def
    proof (intro conjI allI impI)
      show "length pre < length (pre @ [item])" by simp
    next
      fix j assume "j < length (pre @ [item])"
      then consider "j < length pre" | "j = length pre" by fastforce
      then show "key ((pre @ [item]) ! j) \<le> key ((pre @ [item]) ! length pre)"
      proof cases
        case 1
        with Cons.prems have "key (pre ! j) \<le> key maxitem" by (simp add: first_max_at_def)
        with True 1 show ?thesis by (simp add: nth_append)
      next
        case 2
        then show ?thesis by simp
      qed
    next
      fix j assume j: "j < length pre"
      with Cons.prems have "key (pre ! j) \<le> key maxitem" by (simp add: first_max_at_def)
      with True j show "key ((pre @ [item]) ! j) < key ((pre @ [item]) ! length pre)"
        by (simp add: nth_append)
    qed
    from Cons.IH [of "length pre" "pre @ [item]" item, OF _ _ this]
    obtain i where "first_max_at key ((pre @ [item]) @ items) i"
      "max_loop key item items = ((pre @ [item]) @ items) ! i" by auto
    with True show ?thesis by auto
  next
    case False
    have "first_max_at key (pre @ [item]) k"
      unfolding first_max_at_def
    proof (intro conjI allI impI)
      show "k < length (pre @ [item])" using Cons.prems by simp
    next
      fix j assume "j < length (pre @ [item])"
      then consider "j < length pre" | "j = length pre" by fastforce
      then show "key ((pre @ [item]) ! j) \<le> key ((pre @ [item]) ! k)"
      proof cases
        case 1
        with Cons.prems show ?thesis by (simp add: first_max_at_def nth_append)
      next
        case 2
        with False Cons.prems show ?thesis by (simp add: nth_append)
      qed
    next
      fix j assume j: "j < k"
      with Cons.prems show "key ((pre @ [item]) ! j) < key ((pre @ [item]) ! k)"
        by (simp add: first_max_at_def nth_append)
    qed
    from Cons.IH [of k "pre @ [item]" maxitem, OF _ _ this] Cons.prems
    obtain i where "first_max_at key ((pre @ [item]) @ items) i"
      "max_loop key maxitem items = ((pre @ [item]) @ items) ! i" by (auto simp: nth_append)
    with False show ?thesis by auto
  qed
qed

lemma py_max_first_max:
  assumes "xs \<noteq> []"
  shows "\<exists>i. first_max_at key xs i \<and> py_max key xs = Inr (xs ! i)"
proof -
  from assms obtain x items where xs: "xs = x # items" by (cases xs) auto
  have "first_max_at key [x] 0" by (simp add: first_max_at_def)
  from max_loop_first_max [of 0 "[x]" x key items, OF _ _ this]
  show ?thesis by (simp add: xs)
qed


text \<open>
  Claim C2. For every non-empty list of candidates, the best candidate is the element at
  an index \<open>i\<close> whose total score is the greatest of all, every element before \<open>i\<close>
  having a strictly smaller total score: the first maximum in input order. For three
  candidates with total scores 72.50, 88.10 and 88.10 it is the one at index 1.
\<close>

theorem best_candidate_first_max:
  "(candidates \<noteq> [] \<longrightarrow>
      (\<exists>i < length candidates.
         best_candidate candidates = Inr (candidates ! i) \<and>
         (\<forall>j < length candidates. cand_total (candidates ! j) \<le> cand_total (candidates ! i)) \<and>
         (\<forall>j < i. cand_total (candidates ! j) < cand_total (candidates ! i)))) \<and>
   best_candidate [(cv0, 72.50, s0, e0), (cv1, 88.10, s1, e1), (cv2, 88.10, s2, e2)] =
     Inr ([(cv0, 72.50, s0, e0), (cv1, 88.10, s1, e1), (cv2, 88.10, s2, e2)] ! 1)"
proof (intro conjI impI)
  assume "candidates \<noteq> []"
  from py_max_first_max [OF this, of cand_total] obtain i where
    "first_max_at cand_total candidates i"
    "py_max cand_total candidates = Inr (candidates ! i)" by blast
  then show "\<exists>i < length candidates.
         best_candidate candidates = Inr (candidates ! i) \<and>
         (\<forall>j < length candidates. cand_total (candidates ! j) \<le> cand_total (candidates ! i)) \<and>
         (\<forall>j < i. cand_total (candidates ! j) < cand_total (candidates ! i))"
    unfolding first_max_at_def best_candidate_def by blast
next
  show "best_candidate [(cv0, 72.50, s0, e0), (cv1, 88.10, s1, e1), (cv2, 88.10, s2, e2)] =
     Inr ([(cv0, 72.50, s0, e0), (cv1, 88.10, s1, e1), (cv2, 88.10, s2, e2)] ! 1)"
    by (simp add: best_candidate_def cand_total_def)
qed

theorem best_candidate_first_max_witness:
  "[([65], 40, 30, 50), ([66], 61, 70, 52), ([67], 61, 52, 70), ([68 :: nat], 7 :: real, 7 :: real, 7 :: real)] \<noteq> [] \<and>
      (\<exists>i < length [([65], 40, 30, 50), ([66], 61, 70, 52), ([67], 61, 52, 70), ([68 :: nat], 7 :: real, 7 :: real, 7 :: real)].
         best_candidate [([65], 40, 30, 50), ([66], 61, 70, 52), ([67], 61, 52, 70), ([68], 7, 7, 7)] =
           Inr ([([65], 40, 30, 50), ([66], 61, 70, 52), ([67], 61, 52, 70), ([68], 7, 7, 7)] ! i) \<and>
         (\<forall>j < length [([65], 40, 30, 50), ([66], 61, 70, 52), ([67], 61, 52, 70), ([68 :: nat], 7 :: real, 7 :: real, 7 :: real)].
            cand_total ([([65], 40, 30, 50), ([66], 61, 70, 52), ([67], 61, 52, 70), ([68], 7, 7, 7)] ! j)
              \<le> cand_total ([([65], 40, 30, 50), ([66], 61, 70, 52), ([67], 61, 52, 70), ([68], 7, 7, 7)] ! i)) \<and>
         (\<forall>j < i.
            cand_total ([([65], 40, 30, 50), ([66], 61, 70, 52), ([67], 61, 52, 70), ([68], 7, 7, 7)] ! j)
              < cand_total ([([65], 40, 30, 50), ([66], 61, 70, 52), ([67], 61, 52, 70), ([68], 7, 7, 7)] ! i))) \<and>
   best_candidate [([65], 40, 30, 50), ([66], 61, 70, 52), ([67], 61, 52, 70), ([68], 7, 7, 7)] =
     Inr ([66], 61, 70, 52) \<and>
   best_candidate [([67, 86, 49], 72.50, 80, 65), ([67, 86, 50], 88.10, 90, 86.2),
                   ([67, 86, 51], 88.10, 86.2, 90)] =
     Inr ([67, 86, 50], 88.10, 90, 86.2)"
  using best_candidate_first_max
    [of "[([65], 40, 30, 50), ([66], 61, 70, 52), ([67], 61, 52, 70), ([68], 7, 7, 7)]"
        "[67, 86, 49]" 80 65 "[67, 86, 50]" 90 "86.2" "[67, 86, 51]" "86.2" 90]
  by (simp add: best_candidate_def cand_total_def)

text \<open>
  Claim C9. The best candidate is determined by the order of the candidates and their
  total scores: two lists with the same sequence of total scores have their best
  candidate at the same index. (Each function of the embedding returns one result per
  input, so a repeated call on the same list gives the same best candidate.)
\<close>

theorem best_candidate_depends_on_scores:
  assumes "map cand_total candidates = map cand_total candidates'" and "candidates \<noteq> []"
  shows "\<exists>i < length candidates.
           best_candidate candidates = Inr (candidates ! i) \<and>
           best_candidate candidates' = Inr (candidates' ! i)"
proof -
  from assms have ne: "candidates' \<noteq> []" by auto
  from py_max_first_max [OF assms(2), of cand_total] obtain i where
    i: "first_max_at cand_total candidates i"
       "py_max cand_total candidates = Inr (candidates ! i)" by blast
  from py_max_first_max [OF ne, of cand_total] obtain i' where
    i': "first_max_at cand_total candidates' i'"
        "py_max cand_total candidates' = Inr (candidates' ! i')" by blast
  from first_max_at_keys [OF assms(1) i(1)] have "first_max_at cand_total candidates' i" .
  from this i'(1) have "i = i'" by (rule first_max_at_unique)
  with i i' show ?thesis
    unfolding best_candidate_def first_max_at_def by blast
qed

theorem best_candidate_depends_on_scores_witness:
  "map cand_total [([65], 40, 30, 50), ([66], 61, 70, 52), ([67], 61, 52, 70)] =
     map cand_total [([97], 40, 40, 40), ([98], 61, 61, 61), ([99], 61, 60, 62)] \<and>
   [([65], 40, 30, 50), ([66], 61, 70, 52), ([67 :: nat], 61 :: real, 52 :: real, 70 :: real)] \<noteq> [] \<and>
   (\<exists>i < length [([65], 40, 30, 50), ([66], 61, 70, 52), ([67 :: nat], 61 :: real, 52 :: real, 70 :: real)].
      best_candidate [([65], 40, 30, 50), ([66], 61, 70, 52), ([67], 61, 52, 70)] =
        Inr ([([65], 40, 30, 50), ([66], 61, 70, 52), ([67], 61, 52, 70)] ! i) \<and>
      best_candidate [([97], 40, 40, 40), ([98], 61, 61, 61), ([99], 61, 60, 62)] =
        Inr ([([97], 40, 40, 40), ([98], 61, 61, 61), ([99], 61, 60, 62)] ! i))"
  using best_candidate_depends_on_scores
    [of "[([65], 40, 30, 50), ([66], 61, 70, 52), ([67], 61, 52, 70)]"
        "[([97], 40, 40, 40), ([98], 61, 61, 61), ([99], 61, 60, 62)]"]
  by (simp add: cand_total_def)

subsection \<open>Text of a PDF\<close>

lemma pdf_loop_concat: "pdf_loop acc pages = acc @ concat (map (\<lambda>page. page @ [10]) pages)"
  by (induction pages arbitrary: acc) simp_all

lemma lstrip_split:
  "s = takeWhile py_isspace s @ lstrip s"
  by (simp add: lstrip_def)

lemma rstrip_split:
  "s = rstrip s @ rev (takeWhile py_isspace (rev s))"
proof -
  have "rev (takeWhile py_isspace (rev s) @ dropWhile py_isspace (rev s)) = rev (rev s)"
    by (simp only: takeWhile_dropWhile_id)
  then have "rev (dropWhile py_isspace (rev s)) @ rev (takeWhile py_isspace (rev s)) = s"
    by (simp only: rev_append rev_rev_ident)
  then show ?thesis by (simp only: rstrip_def)
qed

lemma strip_split:
  "\<exists>pre suf. s = pre @ strip s @ suf \<and> (\<forall>c \<in> set pre. py_isspace c) \<and>
     (\<forall>c \<in> set suf. py_isspace c)"
proof -
  let ?pre = "takeWhile py_isspace s"
  let ?suf = "rev (takeWhile py_isspace (rev (lstrip s)))"
  have "lstrip s = strip s @ ?suf" using rstrip_split [of "lstrip s"] by (simp add: strip_def)
  with lstrip_split [of s] have "s = ?pre @ strip s @ ?suf" by simp
  moreover have "\<forall>c \<in> set ?pre. py_isspace c" by (auto dest: set_takeWhileD)
  moreover have "\<forall>c \<in> set ?suf. py_isspace c" by (auto dest: set_takeWhileD)
  ultimately show ?thesis by blast
qed

lemma last_rstrip: "rstrip s \<noteq> [] \<Longrightarrow> \<not> py_isspace (last (rstrip s))"
  by (simp add: rstrip_def last_rev hd_dropWhile)

lemma hd_lstrip: "lstrip s \<noteq> [] \<Longrightarrow> \<not> py_isspace (hd (lstrip s))"
  by (simp add: lstrip_def hd_dropWhile)

lemma strip_ends:
  assumes "strip s \<noteq> []"
  shows "\<not> py_isspace (hd (strip s)) \<and> \<not> py_isspace (last (strip s))"
proof -
  have l: "\<not> py_isspace (last (strip s))" using assms last_rstrip [of "lstrip s"]
    by (simp add: strip_def)
  have "lstrip s = strip s @ rev (takeWhile py_isspace (rev (lstrip s)))"
    using rstrip_split [of "lstrip s"] by (simp add: strip_def)
  then have "hd (lstrip s) = hd (strip s)" "lstrip s \<noteq> []"
    using assms by (metis hd_append2, metis append_is_Nil_conv)
  with hd_lstrip [of s] have "\<not> py_isspace (hd (strip s))" by simp
  with l show ?thesis by simp
qed

text \<open>
  Claim C5. For a PDF that pdfplumber opens, \<open>extract_text_from_pdf\<close> returns the texts
  of the pages in page order, each followed by a line feed, concatenated, with the
  whitespace at both ends removed: the raw concatenation is the result between a prefix
  and a suffix of whitespace only, and a non-empty result neither starts nor ends with
  whitespace. The function is a function of the parser's output alone.
\<close>

theorem extract_text_from_pdf_pages:
  assumes "pdf_pages pdf_path = Inr pages"
  shows "let raw = concat (map (\<lambda>page. page @ [10]) pages) in
           extract_text_from_pdf pdf_pages pdf_path = Inr (strip raw) \<and>
           (\<exists>pre suf. raw = pre @ strip raw @ suf \<and> (\<forall>c \<in> set pre. py_isspace c) \<and>
              (\<forall>c \<in> set suf. py_isspace c)) \<and>
           (strip raw \<noteq> [] \<longrightarrow>
              \<not> py_isspace (hd (strip raw)) \<and> \<not> py_isspace (last (strip raw)))"
proof -
  have "extract_text_from_pdf pdf_pages pdf_path =
          Inr (strip (concat (map (\<lambda>page. page @ [10]) pages)))"
    using assms by (simp add: extract_text_from_pdf_def pdf_loop_concat)
  then show ?thesis
    using strip_split [of "concat (map (\<lambda>page. page @ [10]) pages)"]
      strip_ends [of "concat (map (\<lambda>page. page @ [10]) pages)"]
    by (simp add: Let_def)
qed

theorem extract_text_from_pdf_pages_witness:
  "(\<lambda>f :: nat. Inr [[32, 72, 105, 10], [66, 32, 121], [9]] :: error + pystr list) 0 =
      Inr [[32, 72, 105, 10], [66, 32, 121], [9]] \<and>
   extract_text_from_pdf (\<lambda>f :: nat. Inr [[32, 72, 105, 10], [66, 32, 121], [9]]) 0 =
      Inr [72, 105, 10, 10, 66, 32, 121]"
  using extract_text_from_pdf_pages
    [of "\<lambda>f :: nat. Inr [[32, 72, 105, 10], [66, 32, 121], [9]]" 0
        "[[32, 72, 105, 10], [66, 32, 121], [9]]"]
  by (simp add: Let_def strip_def lstrip_def rstrip_def py_isspace_def)


subsection \<open>Uploads of other media types\<close>

lemma extract_loop_skip:
  "\<not> accepted_type (file_type uploaded) \<Longrightarrow>
   extract_loop pdf_pages docx2txt_process cvs (uploaded # rest) =
   extract_loop pdf_pages docx2txt_process cvs rest"
  by (simp add: accepted_type_def)

lemma extract_loop_filter:
  "extract_loop pdf_pages docx2txt_process cvs uploaded_files =
   extract_loop pdf_pages docx2txt_process cvs
     (filter (\<lambda>f. accepted_type (file_type f)) uploaded_files)"
proof (induction uploaded_files arbitrary: cvs)
  case Nil
  show ?case by simp
next
  case (Cons uploaded rest)
  show ?case
  proof (cases "accepted_type (file_type uploaded)")
    case True
    then show ?thesis using Cons.IH
      by (auto simp: accepted_type_def split: sum.splits)
  next
    case False
    then show ?thesis using Cons.IH by (simp add: extract_loop_skip del: extract_loop.simps)
  qed
qed

lemma extract_loop_length:
  "extract_loop pdf_pages docx2txt_process cvs uploaded_files = Inr res \<Longrightarrow>
   length res = length cvs + length (filter (\<lambda>f. accepted_type (file_type f)) uploaded_files)"
proof (induction uploaded_files arbitrary: cvs)
  case Nil
  then show ?case by simp
next
  case (Cons uploaded rest)
  show ?case
  proof (cases "accepted_type (file_type uploaded)")
    case True
    with Cons.prems obtain t where
      "extract_loop pdf_pages docx2txt_process (cvs @ [t]) rest = Inr res"
      by (auto simp: accepted_type_def split: sum.splits if_splits)
    from Cons.IH [OF this] True show ?thesis by simp
  next
    case False
    with Cons.prems have "extract_loop pdf_pages docx2txt_process cvs rest = Inr res"
      by (simp add: extract_loop_skip del: extract_loop.simps)
    from Cons.IH [OF this] False show ?thesis by simp
  qed
qed

lemma extract_loop_none_accepted:
  "\<forall>f \<in> set uploaded_files. \<not> accepted_type (file_type f) \<Longrightarrow>
   extract_loop pdf_pages docx2txt_process cvs uploaded_files = Inr cvs"
  by (induction uploaded_files arbitrary: cvs) (simp_all add: accepted_type_def)

text \<open>
  Claim C4. An upload whose media type is neither \<open>application/pdf\<close> nor the DOCX type
  is left out: the loop over the uploads gives the same result, error or texts, as on the
  uploads of those two types alone; when it returns it has added one text per upload of
  those two types; and uploads of other types alone give no text and no error.
\<close>

theorem unsupported_types_skipped:
  "extract_loop pdf_pages docx2txt_process cvs uploaded_files =
     extract_loop pdf_pages docx2txt_process cvs
       (filter (\<lambda>f. file_type f = ''application/pdf'' \<or>
          file_type f = ''application/vnd.openxmlformats-officedocument.wordprocessingml.document'')
        uploaded_files) \<and>
   (\<forall>res. extract_loop pdf_pages docx2txt_process cvs uploaded_files = Inr res \<longrightarrow>
      length res = length cvs +
        length (filter (\<lambda>f. file_type f = ''application/pdf'' \<or>
          file_type f = ''application/vnd.openxmlformats-officedocument.wordprocessingml.document'')
          uploaded_files)) \<and>
   ((\<forall>f \<in> set uploaded_files. file_type f \<noteq> ''application/pdf'' \<and>
       file_type f \<noteq> ''application/vnd.openxmlformats-officedocument.wordprocessingml.document'')
    \<longrightarrow> extract_loop pdf_pages docx2txt_process cvs uploaded_files = Inr cvs)"
  using extract_loop_filter [of pdf_pages docx2txt_process cvs uploaded_files]
    extract_loop_length [of pdf_pages docx2txt_process cvs uploaded_files]
    extract_loop_none_accepted [of uploaded_files pdf_pages docx2txt_process cvs]
  unfolding accepted_type_def by blast

theorem unsupported_types_skipped_witness:
  "extract_loop (\<lambda>b :: nat. Inr [[72, 105]]) (\<lambda>b. Inr [87])
      [] [\<lparr>file_type = ''text/plain'', file_body = 0\<rparr>,
          \<lparr>file_type = ''application/pdf'', file_body = 1\<rparr>,
          \<lparr>file_type = ''image/png'', file_body = 2\<rparr>] = Inr [[72, 105]] \<and>
   extract_loop (\<lambda>b :: nat. Inl ParseError) (\<lambda>b. Inl ParseError)
      [] [\<lparr>file_type = ''text/plain'', file_body = 0\<rparr>,
          \<lparr>file_type = ''application/PDF'', file_body = 1\<rparr>] = Inr []"
  using unsupported_types_skipped
    [of "\<lambda>b :: nat. Inr [[72, 105]]" "\<lambda>b. Inr [87]" "[]"
        "[\<lparr>file_type = ''text/plain'', file_body = 0\<rparr>,
          \<lparr>file_type = ''application/pdf'', file_body = 1\<rparr>,
          \<lparr>file_type = ''image/png'', file_body = 2\<rparr>]"]
    unsupported_types_skipped
    [of "\<lambda>b :: nat. Inl ParseError" "\<lambda>b. Inl ParseError" "[]"
        "[\<lparr>file_type = ''text/plain'', file_body = 0\<rparr>,
          \<lparr>file_type = ''application/PDF'', file_body = 1\<rparr>]"]
  by (simp add: extract_text_from_pdf_def strip_def lstrip_def rstrip_def py_isspace_def)

subsection \<open>No candidates\<close>

text \<open>
  Claim C3. On an empty list \<open>rank_candidates\<close> returns the empty list, no error; the
  page then shows the warning "No candidates found" and nothing else, so also when
  uploads were given and none of them produced a text.
\<close>

theorem empty_candidates_warning:
  "rank_candidates model_logits [] = Inr [] \<and>
   show_candidates [] = Inr [Warning ''No candidates found. Please check the CV content.''] \<and>
   (uploaded_files \<noteq> [] \<and> extract_loop pdf_pages docx2txt_process [] uploaded_files = Inr []
    \<longrightarrow> process_uploads pdf_pages docx2txt_process model_logits uploaded_files =
          Inr [Warning ''No candidates found. Please check the CV content.''])"
  by (simp add: rank_candidates_def show_candidates_def process_uploads_def)

theorem empty_candidates_warning_witness:
  "[\<lparr>file_type = ''text/plain'', file_body = 0 :: nat\<rparr>] \<noteq> [] \<and>
   extract_loop (\<lambda>b. Inl ParseError) (\<lambda>b. Inl ParseError) []
     [\<lparr>file_type = ''text/plain'', file_body = 0 :: nat\<rparr>] = Inr [] \<and>
   process_uploads (\<lambda>b. Inl ParseError) (\<lambda>b. Inl ParseError) (\<lambda>cv. [])
     [\<lparr>file_type = ''text/plain'', file_body = 0 :: nat\<rparr>] =
       Inr [Warning ''No candidates found. Please check the CV content.'']"
  using empty_candidates_warning
    [of "\<lambda>cv. []" "[\<lparr>file_type = ''text/plain'', file_body = 0 :: nat\<rparr>]"
        "\<lambda>b. Inl ParseError" "\<lambda>b. Inl ParseError"]
  by simp

subsection \<open>Reset\<close>

text \<open>
  What \<open>reset_state\<close> does to the session state, whatever the state before: the entry
  for the uploads is \<open>None\<close> and the entry for the candidates is the empty list, both
  falsy; the same holds for the session state after the handler of "Clear CVs".
\<close>

lemma reset_state_entries:
  "reset_state st ''uploaded_files'' = Some PyNone \<and>
   reset_state st ''candidates'' = Some (Candidates []) \<and>
   reset_state st ''uploaded_files'' = init_session Map.empty ''uploaded_files'' \<and>
   truthy (state_get (reset_state st) ''uploaded_files'') = False \<and>
   truthy (state_get (reset_state st) ''candidates'') = False \<and>
   truthy (state_get (fst (clear_cvs st)) ''uploaded_files'') = False \<and>
   truthy (state_get (fst (clear_cvs st)) ''candidates'') = False"
  by (simp add: reset_state_def init_session_def state_get_def clear_cvs_def Let_def)

text \<open>
  The session state is not the whole state. A run never changes the files the uploader
  holds, and the state after \<open>reset_state\<close> is never the state of a fresh session
  (it has an entry for the candidates, which a fresh session lacks).
\<close>

lemma run_script_keeps_widget:
  "run_script pdf_pages docx2txt_process model_logits clear_clicked a = Inr (a', shown) \<Longrightarrow>
   widget_files a' = widget_files a"
  by (auto simp: run_script_def Let_def split: sum.splits if_splits prod.splits)

lemma reset_state_not_initial: "reset_state st \<noteq> init_session Map.empty"
proof
  assume "reset_state st = init_session Map.empty"
  then have "reset_state st ''candidates'' = init_session Map.empty ''candidates''" by simp
  then show False by (simp add: reset_state_def init_session_def Let_def)
qed

lemma softmax_zero5: "softmax_row [0, 0, 0, 0, 0] = [1/5, 1/5, 1/5, 1/5, 1/5]"
  by (simp add: softmax_row_def)

lemma strip_hi: "strip [72, 105, 10] = [72, 105]"
  by (simp add: strip_def lstrip_def rstrip_def py_isspace_def)

lemma shown_one:
  "process_uploads (\<lambda>b :: nat. Inr [[72, 105]]) (\<lambda>b. Inl ParseError) (\<lambda>cv. [[0, 0, 0, 0, 0]])
     [\<lparr>file_type = ''application/pdf'', file_body = 0\<rparr>] =
   Inr [Subheader ''Candidates Analysis'', CandidateCard 1 [72, 105] 20 20 20,
        Subheader ''Comparison of Skills and Experience Scores'',
        BarChart [1] [20] [20], BestCandidate [72, 105] 20 20 20]"
  by (simp add: process_uploads_def extract_text_from_pdf_def strip_hi rank_candidates_def
      score_cv_def analyze_cv_text_def softmax_dim1_def softmax_zero5 py_get_def Let_def
      show_candidates_def best_candidate_def candidate_cards_def cand_cv_def cand_total_def
      cand_skills_def cand_experience_def enumerate_eq_zip)

text \<open>
  Claim C7. The claim is that after the clear action the uploaded documents and the
  computed candidates are both empty and the application is back in its initial state.
  The script does not do that. With one PDF in the uploader and "Clear CVs" pressed:
  the run shows the candidate and the best candidate, then "CVs cleared successfully!";
  it sets the two session entries to \<open>None\<close> and the empty list, and the uploader still
  holds the PDF. In the next run the script stores the PDF in the session state again
  and shows the same candidate and best candidate. The computed candidates are a local
  variable of the script, never an entry of the session state, so \<open>reset_state\<close>
  cannot empty them.
\<close>

theorem clear_cvs_keeps_uploads:
  "reset_state st \<noteq> init_session Map.empty \<and>
   (case run_script (\<lambda>b :: nat. Inr [[72, 105]]) (\<lambda>b. Inl ParseError) (\<lambda>cv. [[0, 0, 0, 0, 0]]) True
           \<lparr>widget_files = [\<lparr>file_type = ''application/pdf'', file_body = 0\<rparr>],
            session = Map.empty\<rparr> of
      Inl e \<Rightarrow> False
    | Inr (a1, shown1) \<Rightarrow>
        shown1 =
          [Subheader ''Candidates Analysis'', CandidateCard 1 [72, 105] 20 20 20,
           Subheader ''Comparison of Skills and Experience Scores'',
           BarChart [1] [20] [20], BestCandidate [72, 105] 20 20 20,
           Success ''CVs cleared successfully!''] \<and>
        session a1 ''uploaded_files'' = Some PyNone \<and>
        session a1 ''candidates'' = Some (Candidates []) \<and>
        widget_files a1 = [\<lparr>file_type = ''application/pdf'', file_body = 0\<rparr>] \<and>
        (case run_script (\<lambda>b :: nat. Inr [[72, 105]]) (\<lambda>b. Inl ParseError)
                (\<lambda>cv. [[0, 0, 0, 0, 0]]) False a1 of
           Inl e \<Rightarrow> False
         | Inr (a2, shown2) \<Rightarrow>
             shown2 =
               [Subheader ''Candidates Analysis'', CandidateCard 1 [72, 105] 20 20 20,
                Subheader ''Comparison of Skills and Experience Scores'',
                BarChart [1] [20] [20], BestCandidate [72, 105] 20 20 20] \<and>
             session a2 ''uploaded_files'' =
               Some (UploadedFiles [\<lparr>file_type = ''application/pdf'', file_body = 0\<rparr>]) \<and>
             truthy (state_get (session a2) ''uploaded_files'')))"
proof
  show "reset_state st \<noteq> init_session Map.empty" by (rule reset_state_not_initial)
next
  show "(case run_script (\<lambda>b :: nat. Inr [[72, 105]]) (\<lambda>b. Inl ParseError) (\<lambda>cv. [[0, 0, 0, 0, 0]]) True
           \<lparr>widget_files = [\<lparr>file_type = ''application/pdf'', file_body = 0\<rparr>],
            session = Map.empty\<rparr> of
      Inl e \<Rightarrow> False
    | Inr (a1, shown1) \<Rightarrow>
        shown1 =
          [Subheader ''Candidates Analysis'', CandidateCard 1 [72, 105] 20 20 20,
           Subheader ''Comparison of Skills and Experience Scores'',
           BarChart [1] [20] [20], BestCandidate [72, 105] 20 20 20,
           Success ''CVs cleared successfully!''] \<and>
        session a1 ''uploaded_files'' = Some PyNone \<and>
        session a1 ''candidates'' = Some (Candidates []) \<and>
        widget_files a1 = [\<lparr>file_type = ''application/pdf'', file_body = 0\<rparr>] \<and>
        (case run_script (\<lambda>b :: nat. Inr [[72, 105]]) (\<lambda>b. Inl ParseError)
                (\<lambda>cv. [[0, 0, 0, 0, 0]]) False a1 of
           Inl e \<Rightarrow> False
         | Inr (a2, shown2) \<Rightarrow>
             shown2 =
               [Subheader ''Candidates Analysis'', CandidateCard 1 [72, 105] 20 20 20,
                Subheader ''Comparison of Skills and Experience Scores'',
                BarChart [1] [20] [20], BestCandidate [72, 105] 20 20 20] \<and>
             session a2 ''uploaded_files'' =
               Some (UploadedFiles [\<lparr>file_type = ''application/pdf'', file_body = 0\<rparr>]) \<and>
             truthy (state_get (session a2) ''uploaded_files'')))"
    by (simp add: run_script_def shown_one clear_cvs_def store_uploads_def init_session_def
        state_get_def reset_state_def Let_def)
qed

end
